theory Spec2Isabelle
  imports Main
begin

section \<open>Data model of the SAT solver (lib/src/sat_solver.cpp, sat_solver.h)\<close>

text \<open>
  A literal is a C++ \<open>int\<close>, a clause is a \<open>std::vector<int>\<close>, a formula a
  \<open>std::vector<Clause>\<close>. The assignment is a \<open>std::vector<bool>\<close> indexed by the
  variable: every index holds \<open>true\<close> or \<open>false\<close>, the type has no third value for
  "not assigned yet".

  A C++ \<open>int\<close> has 32 bits. The model writes literals and variables as integers and
  writes out the places where the source leaves that range and reads the result:
  \<open>std::abs(lit)\<close> and \<open>-lit\<close> at \<open>INT_MIN\<close>, and \<open>num_variables_ + 1\<close> at
  \<open>INT_MAX\<close>, each with the value two's complement arithmetic gives. An \<open>int\<close> used as a vector index is converted to the
  unsigned size type, so a negative index lies past the end of every vector, and a
  negative element count makes \<open>assign\<close> throw \<open>std::length_error\<close>.

  Reading or writing \<open>assignment[var]\<close> past the end of the vector, and building a vector
  from an iterator range whose start lies behind its end, have no defined behaviour in
  C++. The model makes both a value of the type \<open>error\<close>. A function whose loop or
  recursion may run forever returns an \<open>option\<close>, with \<open>None\<close> for "does not return".
\<close>

type_synonym literal = int
type_synonym clause = "int list"
type_synonym formula = "clause list"

datatype error = VectorIndexOutOfRange | InvalidIteratorRange | LengthError

definition INT_MIN :: int where
  "INT_MIN = - 2147483648"

definition INT_MAX :: int where
  "INT_MAX = 2147483647"

definition std_abs :: "int \<Rightarrow> int" where
  "std_abs x = (if x = INT_MIN then INT_MIN else abs x)"

definition int_neg :: "int \<Rightarrow> int" where
  "int_neg x = (if x = INT_MIN then INT_MIN else - x)"

definition int_succ :: "int \<Rightarrow> int" where
  "int_succ x = (if x = INT_MAX then INT_MIN else x + 1)"

definition in_bounds :: "bool list \<Rightarrow> int \<Rightarrow> bool" where
  "in_bounds v i \<longleftrightarrow> 0 \<le> i \<and> nat i < length v"

text \<open>
  The members of the class \<open>SATSolver\<close>; the source's \<open>formula_\<close>, \<open>num_variables_\<close>,
  \<open>assignment_\<close> and \<open>has_satisfying_assignment_\<close> are written with the prefix \<open>m_\<close>.
\<close>

record solver =
  m_formula :: formula
  m_num_variables :: int
  m_assignment :: "bool list"
  m_has_satisfying_assignment :: bool

section \<open>Simplifier\<close>

text \<open>
  The inner loop of \<open>SATSolver::simplify\<close> over one clause. The result \<open>None\<close> stands
  for \<open>clause_satisfied = true\<close> (the loop breaks at the first satisfied literal and the
  clause is erased from the formula); \<open>Some c\<close> is the clause after the erasures.
\<close>

fun simplify_clause :: "clause \<Rightarrow> bool list \<Rightarrow> error + clause option" where
  "simplify_clause [] assignment = Inr (Some [])"
| "simplify_clause (lit # rest) assignment =
     (let var = std_abs lit in
      if \<not> in_bounds assignment var then Inl VectorIndexOutOfRange
      else
        let var_value = assignment ! nat var in
        if (lit > 0 \<and> var_value) \<or> (lit < 0 \<and> \<not> var_value) then Inr None
        else if (lit > 0 \<and> \<not> var_value) \<or> (lit < 0 \<and> var_value)
          then simplify_clause rest assignment
        else (case simplify_clause rest assignment of
                Inl e \<Rightarrow> Inl e
              | Inr None \<Rightarrow> Inr None
              | Inr (Some rest') \<Rightarrow> Inr (Some (lit # rest'))))"

fun simplify :: "formula \<Rightarrow> bool list \<Rightarrow> error + formula" where
  "simplify [] assignment = Inr []"
| "simplify (c # cs) assignment =
     (case simplify_clause c assignment of
        Inl e \<Rightarrow> Inl e
      | Inr None \<Rightarrow> simplify cs assignment
      | Inr (Some c') \<Rightarrow>
          (case simplify cs assignment of
             Inl e \<Rightarrow> Inl e
           | Inr cs' \<Rightarrow> Inr (c' # cs')))"

text \<open>The two tests of the source on a literal, and the precondition of the vector reads.\<close>

definition lit_satisfied :: "bool list \<Rightarrow> int \<Rightarrow> bool" where
  "lit_satisfied assignment lit \<longleftrightarrow>
     (lit > 0 \<and> assignment ! nat (std_abs lit))
     \<or> (lit < 0 \<and> \<not> assignment ! nat (std_abs lit))"

definition lit_falsified :: "bool list \<Rightarrow> int \<Rightarrow> bool" where
  "lit_falsified assignment lit \<longleftrightarrow>
     (lit > 0 \<and> \<not> assignment ! nat (std_abs lit))
     \<or> (lit < 0 \<and> assignment ! nat (std_abs lit))"

definition vars_in_range :: "formula \<Rightarrow> bool list \<Rightarrow> bool" where
  "vars_in_range F assignment \<longleftrightarrow>
     (\<forall>c \<in> set F. \<forall>lit \<in> set c. in_bounds assignment (std_abs lit))"

definition nonzero_literals :: "formula \<Rightarrow> bool" where
  "nonzero_literals F \<longleftrightarrow> (\<forall>c \<in> set F. \<forall>lit \<in> set c. lit \<noteq> 0)"

section \<open>Formula store\<close>

text \<open>The constructor: no clauses, \<open>num_variables_ = 0\<close>, no cached assignment.\<close>

definition SATSolver :: solver where
  "SATSolver = \<lparr> m_formula = [], m_num_variables = 0, m_assignment = [],
                 m_has_satisfying_assignment = False \<rparr>"

text \<open>The loop of \<open>add_clause\<close> over the literals of the new clause.\<close>

fun update_num_variables :: "clause \<Rightarrow> int \<Rightarrow> int" where
  "update_num_variables [] n = n"
| "update_num_variables (lit # rest) n =
     (let var = std_abs lit in update_num_variables rest (if var > n then var else n))"

definition add_clause :: "clause \<Rightarrow> solver \<Rightarrow> solver" where
  "add_clause c S =
     S\<lparr> m_formula := m_formula S @ [c],
        m_num_variables := update_num_variables c (m_num_variables S),
        m_has_satisfying_assignment := False,
        m_assignment := [] \<rparr>"

definition clear :: "solver \<Rightarrow> solver" where
  "clear S = S\<lparr> m_formula := [], m_num_variables := 0, m_assignment := [],
                m_has_satisfying_assignment := False \<rparr>"

definition get_num_variables :: "solver \<Rightarrow> int" where
  "get_num_variables S = m_num_variables S"

section \<open>Propagation engine\<close>

definition has_empty_clause :: "formula \<Rightarrow> bool" where
  "has_empty_clause F \<longleftrightarrow> (\<exists>c \<in> set F. c = [])"

text \<open>
  \<open>unit_propagate\<close>: each round of the \<open>while (changed)\<close> loop scans for the first
  clause of size 1, writes its variable, simplifies and starts over; a round that finds
  none leaves the loop, and the result is whether an empty clause is present. The source
  has no bound on the number of rounds, so the model is a partial function.
\<close>

partial_function (option) unit_propagate ::
  "formula \<Rightarrow> bool list \<Rightarrow> (error + bool \<times> formula \<times> bool list) option" where
  "unit_propagate F assignment =
     (case find (\<lambda>c. length c = 1) F of
        None \<Rightarrow> Some (Inr (has_empty_clause F, F, assignment))
      | Some c \<Rightarrow>
          (let lit = c ! 0; var = std_abs lit; val = (lit > 0) in
           if \<not> in_bounds assignment var then Some (Inl VectorIndexOutOfRange)
           else
             let assignment' = assignment[nat var := val] in
             case simplify F assignment' of
               Inl e \<Rightarrow> Some (Inl e)
             | Inr F' \<Rightarrow> unit_propagate F' assignment'))"

declare unit_propagate.simps [code]

text \<open>
  The two \<open>std::set<int>\<close> of \<open>pure_literal_eliminate\<close>, as the sorted duplicate-free
  lists their iteration visits: a literal \<open>lit > 0\<close> goes to the first as \<open>lit\<close>, any
  other to the second as \<open>-lit\<close>.
\<close>

definition positive_literals :: "formula \<Rightarrow> int list" where
  "positive_literals F = sort (remdups (filter (\<lambda>lit. lit > 0) (concat F)))"

definition negative_literals :: "formula \<Rightarrow> int list" where
  "negative_literals F =
     sort (remdups (map int_neg (filter (\<lambda>lit. \<not> lit > 0) (concat F))))"

definition fix_and_simplify ::
  "formula \<Rightarrow> bool list \<Rightarrow> int \<Rightarrow> bool \<Rightarrow> error + bool \<times> formula \<times> bool list" where
  "fix_and_simplify F assignment var val =
     (if \<not> in_bounds assignment var then Inl VectorIndexOutOfRange
      else
        let assignment' = assignment[nat var := val] in
        case simplify F assignment' of
          Inl e \<Rightarrow> Inl e
        | Inr F' \<Rightarrow> Inr (True, F', assignment'))"

definition pure_literal_eliminate ::
  "formula \<Rightarrow> bool list \<Rightarrow> error + bool \<times> formula \<times> bool list" where
  "pure_literal_eliminate F assignment =
     (let pos = positive_literals F; neg = negative_literals F in
      case find (\<lambda>var. var \<notin> set neg) pos of
        Some var \<Rightarrow> fix_and_simplify F assignment var True
      | None \<Rightarrow>
          (case find (\<lambda>var. var \<notin> set pos) neg of
             Some var \<Rightarrow> fix_and_simplify F assignment var False
           | None \<Rightarrow> Inr (False, F, assignment)))"

section \<open>Search engine\<close>

definition choose_variable :: "formula \<Rightarrow> int" where
  "choose_variable F =
     (let unassigned_vars = sort (remdups (map std_abs (concat F))) in
      if unassigned_vars = [] then - 1 else hd unassigned_vars)"

text \<open>
  \<open>dpll\<close> works on the caller's assignment vector by reference, so the model returns
  the vector together with the verdict; the formula a call is given is a copy its caller
  never reads again. The third parameter is passed on and never read, as in the source,
  so the sum \<open>next_var + 1\<close> stands as it is written.
\<close>

partial_function (option) dpll ::
  "formula \<Rightarrow> bool list \<Rightarrow> int \<Rightarrow> (error + bool \<times> bool list) option" where
  "dpll F assignment var =
     (if F = [] then Some (Inr (True, assignment))
      else if has_empty_clause F then Some (Inr (False, assignment))
      else
        Option.bind (unit_propagate F assignment) (\<lambda>r.
          case r of
            Inl e \<Rightarrow> Some (Inl e)
          | Inr (conflict, F1, a1) \<Rightarrow>
              if conflict then Some (Inr (False, a1))
              else
                (case pure_literal_eliminate F1 a1 of
                   Inl e \<Rightarrow> Some (Inl e)
                 | Inr (_, F2, a2) \<Rightarrow>
                     if F2 = [] then Some (Inr (True, a2))
                     else
                       let next_var = choose_variable F2 in
                       if next_var = - 1 then Some (Inr (True, a2))
                       else if \<not> in_bounds a2 next_var then Some (Inl VectorIndexOutOfRange)
                       else
                         let a3 = a2[nat next_var := True] in
                         (case simplify F2 a3 of
                            Inl e \<Rightarrow> Some (Inl e)
                          | Inr formula_copy \<Rightarrow>
                              Option.bind (dpll formula_copy a3 (next_var + 1)) (\<lambda>r'.
                                case r' of
                                  Inl e \<Rightarrow> Some (Inl e)
                                | Inr (found, a4) \<Rightarrow>
                                    if found then Some (Inr (True, a4))
                                    else if \<not> in_bounds a4 next_var
                                      then Some (Inl VectorIndexOutOfRange)
                                    else
                                      let a5 = a4[nat next_var := False] in
                                      (case simplify F2 a5 of
                                         Inl e \<Rightarrow> Some (Inl e)
                                       | Inr formula_copy' \<Rightarrow>
                                           dpll formula_copy' a5 (next_var + 1)))))))"

declare dpll.simps [code]

definition is_satisfiable :: "solver \<Rightarrow> (error + bool \<times> solver) option" where
  "is_satisfiable S =
     (if m_formula S = [] then Some (Inr (True, S))
      else
        let n = int_succ (m_num_variables S) in
        if n < 0 then Some (Inl LengthError)
        else
          let a0 = replicate (nat n) False in
          Option.bind (dpll (m_formula S) a0 1) (\<lambda>r.
            case r of
              Inl e \<Rightarrow> Some (Inl e)
            | Inr (result, a) \<Rightarrow>
                Some (Inr (result, S\<lparr> m_assignment := a,
                                      m_has_satisfying_assignment := result \<rparr>))))"

text \<open>
  The last statement of \<open>get_satisfying_assignment\<close> builds the result from the range
  \<open>[assignment_.begin() + 1, assignment_.end())\<close>; on an empty vector the start of
  the range lies behind its end.
\<close>

definition assignment_without_index0 :: "solver \<Rightarrow> error + bool list \<times> solver" where
  "assignment_without_index0 S =
     (if length (m_assignment S) < 1 then Inl InvalidIteratorRange
      else Inr (tl (m_assignment S), S))"

definition get_satisfying_assignment :: "solver \<Rightarrow> (error + bool list \<times> solver) option" where
  "get_satisfying_assignment S =
     (if \<not> m_has_satisfying_assignment S then
        Option.bind (is_satisfiable S) (\<lambda>r.
          case r of
            Inl e \<Rightarrow> Some (Inl e)
          | Inr (sat, S') \<Rightarrow>
              if \<not> sat then Some (Inr ([], S'))
              else Some (assignment_without_index0 S'))
      else Some (assignment_without_index0 S))"

section \<open>Instance utilities\<close>

definition are_equivalent :: "formula \<Rightarrow> formula \<Rightarrow> (error + bool) option" where
  "are_equivalent f1 f2 =
     (let solver1 = fold add_clause f1 SATSolver;
          solver2 = fold add_clause f2 SATSolver in
      Option.bind (is_satisfiable solver1) (\<lambda>r1.
        case r1 of
          Inl e \<Rightarrow> Some (Inl e)
        | Inr (sat1, _) \<Rightarrow>
            Option.bind (is_satisfiable solver2) (\<lambda>r2.
              case r2 of
                Inl e \<Rightarrow> Some (Inl e)
              | Inr (sat2, _) \<Rightarrow>
                  if sat1 \<noteq> sat2 then Some (Inr False)
                  else if \<not> sat1 then Some (Inr True)
                  else Some (Inr True))))"





section \<open>Sequences of store operations\<close>

datatype store_op = AddClause clause | Clear

fun apply_op :: "solver \<Rightarrow> store_op \<Rightarrow> solver" where
  "apply_op S (AddClause c) = add_clause c S"
| "apply_op S Clear = clear S"

definition run_ops :: "store_op list \<Rightarrow> solver" where
  "run_ops ops = foldl apply_op SATSolver ops"

section \<open>What the specification calls satisfaction\<close>

text \<open>
  The definitions of this section follow the words of the specification, not the code:
  a total assignment over the variables \<open>1..n\<close> is a list of \<open>n\<close> booleans, the value
  of variable \<open>i\<close> at position \<open>i - 1\<close> (the vector \<open>get_satisfying_assignment\<close>
  returns); a clause is true when one of its literals is, a formula when all its clauses
  are; brute force tries every list of \<open>n\<close> booleans.
\<close>

definition spec_literal_true :: "bool list \<Rightarrow> int \<Rightarrow> bool" where
  "spec_literal_true vals lit \<longleftrightarrow>
     (if lit > 0 then vals ! (nat lit - 1) else \<not> vals ! (nat (- lit) - 1))"

definition spec_clause_true :: "bool list \<Rightarrow> clause \<Rightarrow> bool" where
  "spec_clause_true vals c \<longleftrightarrow> list_ex (spec_literal_true vals) c"

definition spec_formula_true :: "bool list \<Rightarrow> formula \<Rightarrow> bool" where
  "spec_formula_true vals F \<longleftrightarrow> list_all (spec_clause_true vals) F"

definition spec_brute_force_satisfiable :: "formula \<Rightarrow> nat \<Rightarrow> bool" where
  "spec_brute_force_satisfiable F n \<longleftrightarrow>
     list_ex (\<lambda>vals. spec_formula_true vals F) (List.n_lists n [False, True])"

text \<open>
  The simplifier of the specification works on a partial assignment: a variable is
  unassigned (\<open>None\<close>) or assigned a value. A clause with a satisfied literal is
  dropped; of the others, the literals whose variable is assigned and falsified are
  removed and the literals of unassigned variables stay. \<open>vector_of\<close> is the vector the
  code holds for a partial assignment: \<open>is_satisfiable\<close> fills it with \<open>false\<close> and
  the search writes the variables it decides.
\<close>

type_synonym partial_assignment = "bool option list"

definition spec_lit_satisfied :: "partial_assignment \<Rightarrow> int \<Rightarrow> bool" where
  "spec_lit_satisfied pa lit \<longleftrightarrow>
     (lit > 0 \<and> pa ! nat lit = Some True) \<or> (lit < 0 \<and> pa ! nat (- lit) = Some False)"

definition spec_lit_falsified :: "partial_assignment \<Rightarrow> int \<Rightarrow> bool" where
  "spec_lit_falsified pa lit \<longleftrightarrow>
     (lit > 0 \<and> pa ! nat lit = Some False) \<or> (lit < 0 \<and> pa ! nat (- lit) = Some True)"

definition spec_simplify :: "formula \<Rightarrow> partial_assignment \<Rightarrow> formula" where
  "spec_simplify F pa =
     map (filter (\<lambda>lit. \<not> spec_lit_falsified pa lit))
         (filter (\<lambda>c. \<not> list_ex (spec_lit_satisfied pa) c) F)"

definition vector_of :: "partial_assignment \<Rightarrow> bool list" where
  "vector_of pa = map (\<lambda>v. v = Some True) pa"

text \<open>The clauses added since the last \<open>clear\<close>, and the largest magnitude among them.\<close>

definition clauses_since_last_clear :: "store_op list \<Rightarrow> formula" where
  "clauses_since_last_clear ops =
     concat (map (\<lambda>op. case op of AddClause c \<Rightarrow> [c] | Clear \<Rightarrow> [])
                 (rev (takeWhile (\<lambda>op. op \<noteq> Clear) (rev ops))))"

definition max_magnitude :: "formula \<Rightarrow> int" where
  "max_magnitude F = Max (insert 0 (abs ` set (concat F)))"

text \<open>
  A variable is pure in a formula when it occurs with one polarity only. The lowest pure
  variable and the pass that fixes it follow the words of the specification ("the pure
  variable with the lowest index among all pure variables"), to be compared with
  \<open>pure_literal_eliminate\<close>.
\<close>

definition pure_positive :: "formula \<Rightarrow> int \<Rightarrow> bool" where
  "pure_positive F v \<longleftrightarrow> v > 0 \<and> v \<in> set (concat F) \<and> - v \<notin> set (concat F)"

definition pure_negative :: "formula \<Rightarrow> int \<Rightarrow> bool" where
  "pure_negative F v \<longleftrightarrow> v > 0 \<and> - v \<in> set (concat F) \<and> v \<notin> set (concat F)"

definition spec_lowest_pure_variable :: "formula \<Rightarrow> int option" where
  "spec_lowest_pure_variable F =
     find (\<lambda>v. pure_positive F v \<or> pure_negative F v) (sort (remdups (map abs (concat F))))"

definition spec_pure_literal_eliminate ::
  "formula \<Rightarrow> bool list \<Rightarrow> error + bool \<times> formula \<times> bool list" where
  "spec_pure_literal_eliminate F assignment =
     (case spec_lowest_pure_variable F of
        None \<Rightarrow> Inr (False, F, assignment)
      | Some v \<Rightarrow> fix_and_simplify F assignment v (pure_positive F v))"

text \<open>A formula all of whose clauses are empty, and the empty formula.\<close>

definition all_empty :: "formula \<Rightarrow> bool" where
  "all_empty F \<longleftrightarrow> (\<forall>c \<in> set F. c = [])"

section \<open>Properties of the simplifier\<close>

lemma std_abs_eq_abs: "x \<noteq> INT_MIN \<Longrightarrow> std_abs x = abs x"
  by (simp add: std_abs_def)

lemma std_abs_nonneg_iff: "0 \<le> std_abs x \<longleftrightarrow> x \<noteq> INT_MIN"
  by (simp add: std_abs_def INT_MIN_def)

lemma in_bounds_std_abs:
  assumes "in_bounds a (std_abs lit)"
  shows "lit \<noteq> INT_MIN" and "std_abs lit = abs lit" and "nat (abs lit) < length a"
proof -
  show ne: "lit \<noteq> INT_MIN" using assms by (simp add: in_bounds_def std_abs_nonneg_iff)
  then show eq: "std_abs lit = abs lit" by (rule std_abs_eq_abs)
  show "nat (abs lit) < length a" using assms eq by (simp add: in_bounds_def)
qed

lemma in_bounds_update [simp]: "in_bounds (a[i := b]) v = in_bounds a v"
  by (simp add: in_bounds_def)

lemma simplify_clause_eq:
  assumes "\<forall>lit \<in> set c. in_bounds a (std_abs lit)"
  shows "simplify_clause c a =
           Inr (if \<exists>lit \<in> set c. lit_satisfied a lit then None
                else Some (filter (\<lambda>lit. \<not> lit_falsified a lit) c))"
  using assms
proof (induction c)
  case Nil
  show ?case by simp
next
  case (Cons lit rest)
  then have ih: "simplify_clause rest a =
           Inr (if \<exists>l \<in> set rest. lit_satisfied a l then None
                else Some (filter (\<lambda>l. \<not> lit_falsified a l) rest))"
    and inb: "in_bounds a (std_abs lit)"
    by simp_all
  consider "lit > 0" | "lit < 0" | "lit = 0" by linarith
  then show ?case
  proof cases
    case 1
    then show ?thesis
      using inb by (auto simp: ih Let_def lit_satisfied_def lit_falsified_def)
  next
    case 2
    then show ?thesis
      using inb by (auto simp: ih Let_def lit_satisfied_def lit_falsified_def)
  next
    case 3
    then show ?thesis
      using inb by (auto simp: ih Let_def lit_satisfied_def lit_falsified_def)
  qed
qed

lemma simplify_eq:
  assumes "vars_in_range F a"
  shows "simplify F a =
           Inr (map (filter (\<lambda>lit. \<not> lit_falsified a lit))
                    (filter (\<lambda>c. \<not> (\<exists>lit \<in> set c. lit_satisfied a lit)) F))"
  using assms
proof (induction F)
  case Nil
  show ?case by simp
next
  case (Cons c cs)
  then have ih: "simplify cs a =
           Inr (map (filter (\<lambda>lit. \<not> lit_falsified a lit))
                    (filter (\<lambda>c. \<not> (\<exists>lit \<in> set c. lit_satisfied a lit)) cs))"
    and inb: "\<forall>lit \<in> set c. in_bounds a (std_abs lit)"
    by (simp_all add: vars_in_range_def)
  show ?case
    by (simp add: ih simplify_clause_eq [OF inb])
qed

text \<open>A literal that survives \<open>simplify\<close> has passed the bounds check.\<close>

lemma simplify_clause_result_in_bounds:
  assumes "simplify_clause c a = Inr (Some c')"
  shows "\<forall>lit \<in> set c'. in_bounds a (std_abs lit)"
  using assms
proof (induction c arbitrary: c')
  case Nil
  then show ?case by simp
next
  case (Cons lit rest)
  then show ?case
    by (auto simp: Let_def split: if_splits sum.splits option.splits)
qed

lemma simplify_result_in_bounds:
  assumes "simplify F a = Inr F'"
  shows "vars_in_range F' a"
  using assms
proof (induction F arbitrary: F')
  case Nil
  then show ?case by (simp add: vars_in_range_def)
next
  case (Cons c cs)
  then show ?case
    using simplify_clause_result_in_bounds [of c a]
    by (auto simp: vars_in_range_def split: sum.splits option.splits)
qed

text \<open>
  Claim C3. The claim says that \<open>simplify\<close> removes the literals whose variable is
  assigned and falsified and leaves the literals of unassigned variables untouched. The
  first branching step of \<open>is_satisfiable\<close> on \<open>[[-1, 2], [1, -2], [1, 2]]\<close> calls
  \<open>simplify\<close> with \<open>x1 = true\<close> written and \<open>x2\<close> not assigned yet. Under that partial
  assignment the specification keeps the clause \<open>[-1, 2]\<close> as \<open>[2]\<close>; the code reads
  the \<open>false\<close> at index 2 as a value, removes the literal \<open>2\<close> as well and returns the
  empty clause.
\<close>

theorem simplify_strips_unassigned_literals:
  "spec_simplify [[- 1, 2], [1, - 2], [1, 2]] [None, Some True, None] = [[2]]
   \<and> vector_of [None, Some True, None] = (replicate 3 False)[1 := True]
   \<and> simplify [[- 1, 2], [1, - 2], [1, 2]] ((replicate 3 False)[1 := True]) = Inr [[]]
   \<and> simplify [[- 1, 2], [1, - 2], [1, 2]] (vector_of [None, Some True, None])
       \<noteq> Inr (spec_simplify [[- 1, 2], [1, - 2], [1, 2]] [None, Some True, None])"
  by code_simp

section \<open>The store invariant\<close>

lemma fold_max_eq_Max: "fold max xs (n::int) = Max (insert n (set xs))"
  using Max.set_eq_fold [of n xs] by simp

lemma update_num_variables_fold:
  "update_num_variables c n = fold max (map std_abs c) n"
  by (induction c arbitrary: n) (simp_all add: Let_def max_def)

lemma update_num_variables_eq:
  "update_num_variables c n = Max (insert n (std_abs ` set c))"
  by (simp add: update_num_variables_fold fold_max_eq_Max)

lemma run_ops_snoc: "run_ops (ops @ [x]) = apply_op (run_ops ops) x"
  by (simp add: run_ops_def)

lemma clauses_since_last_clear_Clear: "clauses_since_last_clear (ops @ [Clear]) = []"
  by (simp add: clauses_since_last_clear_def)

lemma clauses_since_last_clear_Add:
  "clauses_since_last_clear (ops @ [AddClause c]) = clauses_since_last_clear ops @ [c]"
  by (simp add: clauses_since_last_clear_def)

lemma Max_std_abs_snoc:
  "Max (insert 0 (std_abs ` set (concat (F @ [c]))))
     = Max (insert (Max (insert 0 (std_abs ` set (concat F)))) (std_abs ` set c))"
proof -
  have "Max (insert 0 (std_abs ` set (concat (F @ [c]))))
          = fold max (map std_abs (concat (F @ [c]))) 0"
    by (simp only: fold_max_eq_Max set_map)
  also have "\<dots> = fold max (map std_abs c) (fold max (map std_abs (concat F)) 0)"
    by simp
  also have "\<dots> = Max (insert (Max (insert 0 (std_abs ` set (concat F)))) (std_abs ` set c))"
    by (simp only: fold_max_eq_Max set_map)
  finally show ?thesis .
qed

lemma run_ops_store:
  "m_formula (run_ops ops) = clauses_since_last_clear ops \<and>
   m_num_variables (run_ops ops)
     = Max (insert 0 (std_abs ` set (concat (clauses_since_last_clear ops))))"
proof (induction ops rule: rev_induct)
  case Nil
  show ?case
    by (simp add: run_ops_def SATSolver_def clauses_since_last_clear_def)
next
  case (snoc x ops)
  show ?case
  proof (cases x)
    case (AddClause c)
    then show ?thesis
      using snoc
      by (simp add: run_ops_snoc clauses_since_last_clear_Add add_clause_def
            update_num_variables_eq Max_std_abs_snoc del: set_concat concat_append)
  next
    case Clear
    then show ?thesis
      by (simp add: run_ops_snoc clauses_since_last_clear_Clear clear_def)
  qed
qed

lemma Max_std_abs_eq_max_magnitude:
  assumes "INT_MIN \<notin> set (concat F)"
  shows "Max (insert 0 (std_abs ` set (concat F))) = max_magnitude F"
proof -
  have "std_abs ` set (concat F) = abs ` set (concat F)"
    using assms by (intro image_cong refl std_abs_eq_abs) auto
  then show ?thesis by (simp add: max_magnitude_def del: set_concat)
qed

text \<open>
  Claim C9, as amended. After every sequence of \<open>add_clause\<close> and \<open>clear\<close> operations
  on a fresh solver, the stored formula is the list of clauses added since the last
  \<open>clear\<close> and \<open>get_num_variables\<close> is the largest value \<open>std::abs\<close> returns on their
  literals (0 when there is none). That is the largest literal magnitude whenever none of
  these literals is \<open>INT_MIN\<close>, the one \<open>int\<close> whose magnitude is not an \<open>int\<close>.
  \<open>add_clause\<close> takes the maximum of the old count and the values of \<open>std::abs\<close> on
  the new clause, \<open>clear\<close> resets the count to 0.
\<close>

theorem num_variables_is_max_representable_magnitude:
  "get_num_variables (run_ops ops)
     = Max (insert 0 (std_abs ` set (concat (clauses_since_last_clear ops))))
   \<and> (INT_MIN \<notin> set (concat (clauses_since_last_clear ops)) \<longrightarrow>
        get_num_variables (run_ops ops) = max_magnitude (clauses_since_last_clear ops))
   \<and> m_formula (run_ops ops) = clauses_since_last_clear ops
   \<and> get_num_variables (add_clause c S)
        = Max (insert (get_num_variables S) (std_abs ` set c))
   \<and> get_num_variables (clear S) = 0
   \<and> get_num_variables SATSolver = 0"
  using Max_std_abs_eq_max_magnitude [of "clauses_since_last_clear ops"]
  by (simp add: run_ops_store get_num_variables_def add_clause_def clear_def SATSolver_def
        update_num_variables_eq del: set_concat)

theorem num_variables_is_max_representable_magnitude_witness:
  "INT_MIN \<notin> set (concat (clauses_since_last_clear [AddClause [9], Clear, AddClause [1, - 7], AddClause [3]]))
   \<and> clauses_since_last_clear [AddClause [9], Clear, AddClause [1, - 7], AddClause [3]]
       = [[1, - 7], [3]]
   \<and> get_num_variables (run_ops [AddClause [9], Clear, AddClause [1, - 7], AddClause [3]]) = 7"
proof -
  let ?ops = "[AddClause [9], Clear, AddClause [1, - 7], AddClause [3]]"
  have c: "clauses_since_last_clear ?ops = [[1, - 7], [3]]"
    by (simp add: clauses_since_last_clear_def)
  have h: "INT_MIN \<notin> set (concat (clauses_since_last_clear ?ops))"
    by (simp add: c INT_MIN_def)
  have m: "max_magnitude [[1, - 7], [3]] = 7"
    by (simp add: max_magnitude_def)
  have "get_num_variables (run_ops ?ops) = max_magnitude (clauses_since_last_clear ?ops)"
    using num_variables_is_max_representable_magnitude [of ?ops] h by blast
  then show ?thesis
    using h c m by simp
qed

text \<open>
  Claim C9, as stated, fails: after \<open>add_clause({INT_MIN})\<close> the largest magnitude
  added is 2147483648, and \<open>get_num_variables\<close> is still 0.
\<close>

theorem num_variables_misses_INT_MIN:
  "clauses_since_last_clear [AddClause [- 2147483648]] = [[- 2147483648]]
   \<and> max_magnitude (clauses_since_last_clear [AddClause [- 2147483648]]) = 2147483648
   \<and> get_num_variables (run_ops [AddClause [- 2147483648]]) = 0
   \<and> get_num_variables (run_ops [AddClause [- 2147483648]])
       \<noteq> max_magnitude (clauses_since_last_clear [AddClause [- 2147483648]])"
  by (simp add: clauses_since_last_clear_def max_magnitude_def run_ops_def add_clause_def
        SATSolver_def get_num_variables_def std_abs_def INT_MIN_def Let_def)

section \<open>The verdict and the witness on concrete formulas\<close>

text \<open>
  Claim C1. The claim says that \<open>is_satisfiable\<close> answers false exactly on the formulas
  that brute-force enumeration finds unsatisfiable. The code answers false on
  \<open>[[-1, 2], [1, -2], [1, 2]]\<close>, which \<open>x1 = x2 = true\<close> satisfies, and answers true on
  \<open>[[1, 2], [2, 3], [-2, 3], [2, -3], [-2, -3]]\<close>, which no assignment satisfies.
\<close>

theorem is_satisfiable_disagrees_with_brute_force:
  "map_option (map_sum id fst)
     (is_satisfiable (fold add_clause [[- 1, 2], [1, - 2], [1, 2]] SATSolver))
     = Some (Inr False)
   \<and> get_num_variables (fold add_clause [[- 1, 2], [1, - 2], [1, 2]] SATSolver) = 2
   \<and> spec_brute_force_satisfiable [[- 1, 2], [1, - 2], [1, 2]] 2
   \<and> spec_formula_true [True, True] [[- 1, 2], [1, - 2], [1, 2]]
   \<and> map_option (map_sum id fst)
       (is_satisfiable
          (fold add_clause [[1, 2], [2, 3], [- 2, 3], [2, - 3], [- 2, - 3]] SATSolver))
       = Some (Inr True)
   \<and> get_num_variables
        (fold add_clause [[1, 2], [2, 3], [- 2, 3], [2, - 3], [- 2, - 3]] SATSolver) = 3
   \<and> \<not> spec_brute_force_satisfiable [[1, 2], [2, 3], [- 2, 3], [2, - 3], [- 2, - 3]] 3"
  by code_simp

text \<open>
  Claim C2. The claim says that the vector returned after a true verdict satisfies
  every clause. On \<open>[[1, 2], [2, 3], [-2, -3]]\<close> the code answers true and returns
  \<open>x1 = true, x2 = false, x3 = false\<close>, under which the clause \<open>[2, 3]\<close> is false.
\<close>

theorem get_satisfying_assignment_falsifies_clause:
  "map_option (map_sum id fst)
     (is_satisfiable (fold add_clause [[1, 2], [2, 3], [- 2, - 3]] SATSolver))
     = Some (Inr True)
   \<and> map_option (map_sum id fst)
       (get_satisfying_assignment (fold add_clause [[1, 2], [2, 3], [- 2, - 3]] SATSolver))
       = Some (Inr [True, False, False])
   \<and> \<not> spec_clause_true [True, False, False] [2, 3]
   \<and> \<not> spec_formula_true [True, False, False] [[1, 2], [2, 3], [- 2, - 3]]"
  by code_simp

text \<open>
  Claim C10. The claim says that \<open>get_satisfying_assignment\<close> on a solver without
  clauses is well defined and returns the empty sequence. On the fresh solver, and on a
  cleared one, \<open>is_satisfiable\<close> answers true and leaves the assignment vector empty,
  and the result is then built from the range that starts one past the end of that
  empty vector.
\<close>

theorem get_satisfying_assignment_empty_formula:
  "is_satisfiable SATSolver = Some (Inr (True, SATSolver))
   \<and> m_assignment SATSolver = []
   \<and> get_satisfying_assignment SATSolver = Some (Inl InvalidIteratorRange)
   \<and> get_satisfying_assignment (clear (add_clause [1, 2] SATSolver))
       = Some (Inl InvalidIteratorRange)"
  by code_simp

text \<open>
  At the two ends of the \<open>int\<close> range the store and the search leave the integers: a
  literal \<open>INT_MAX\<close> makes \<open>num_variables_ + 1\<close> negative and \<open>assign\<close> throws; a
  literal \<open>INT_MIN\<close> leaves the count at 0 and is then used as an index.
\<close>

lemma is_satisfiable_at_int_limits:
  "is_satisfiable (add_clause [2147483647] SATSolver) = Some (Inl LengthError)
   \<and> is_satisfiable (add_clause [- 2147483648] SATSolver) = Some (Inl VectorIndexOutOfRange)"
  by code_simp

section \<open>Unit propagation\<close>

lemma nonzero_sat_or_fals:
  "lit \<noteq> 0 \<Longrightarrow> lit_satisfied a lit \<or> lit_falsified a lit"
  by (auto simp: lit_satisfied_def lit_falsified_def)

lemma simplify_all_empty:
  assumes "vars_in_range F a" and "nonzero_literals F"
  shows "\<exists>F'. simplify F a = Inr F' \<and> (\<forall>c \<in> set F'. c = [])"
proof -
  let ?F' = "map (filter (\<lambda>lit. \<not> lit_falsified a lit))
                 (filter (\<lambda>c. \<not> (\<exists>lit \<in> set c. lit_satisfied a lit)) F)"
  have "\<forall>c \<in> set ?F'. c = []"
  proof
    fix c
    assume "c \<in> set ?F'"
    then obtain c0 where c0: "c0 \<in> set F" "\<not> (\<exists>lit \<in> set c0. lit_satisfied a lit)"
      and c: "c = filter (\<lambda>lit. \<not> lit_falsified a lit) c0"
      by auto
    have "\<forall>lit \<in> set c0. lit_falsified a lit"
      using c0 assms(2) nonzero_sat_or_fals [of _ a]
      by (auto simp: nonzero_literals_def)
    then show "c = []" using c by simp
  qed
  then show ?thesis using simplify_eq [OF assms(1)] by blast
qed

lemma unit_propagate_no_unit:
  assumes "find (\<lambda>c. length c = 1) F = None"
  shows "unit_propagate F a = Some (Inr (has_empty_clause F, F, a))"
  using assms by (subst unit_propagate.simps) simp

lemma no_unit_if_all_empty:
  assumes "\<forall>c \<in> set F. c = []"
  shows "find (\<lambda>c. length c = 1) F = None"
  using assms by (auto simp: find_None_iff)

lemma unit_propagate_result:
  assumes "vars_in_range F a" and "nonzero_literals F"
  shows "\<exists>F' a'. unit_propagate F a = Some (Inr (has_empty_clause F', F', a'))
           \<and> length a' = length a
           \<and> find (\<lambda>c. length c = 1) F' = None
           \<and> (F' = F \<or> all_empty F')"
proof (cases "find (\<lambda>c. length c = 1) F")
  case None
  then show ?thesis
    using unit_propagate_no_unit [OF None, of a] by auto
next
  case (Some c)
  then have cF: "c \<in> set F" and len: "length c = 1"
    by (auto simp: find_Some_iff)
  define lit where "lit = c ! 0"
  have "lit \<in> set c" using len by (cases c) (simp_all add: lit_def)
  then have inb: "in_bounds a (std_abs lit)"
    using assms(1) cF by (auto simp: vars_in_range_def)
  define a' where "a' = a[nat (std_abs lit) := (lit > 0)]"
  have "vars_in_range F a'"
    using assms(1) by (simp add: vars_in_range_def a'_def)
  from simplify_all_empty [OF this assms(2)]
  obtain F' where F': "simplify F a' = Inr F'" and emp: "\<forall>c \<in> set F'. c = []"
    by blast
  have step: "unit_propagate F a = unit_propagate F' a'"
    using Some inb F'
    by (subst unit_propagate.simps) (simp add: Let_def lit_def a'_def)
  have nounit: "find (\<lambda>c. length c = 1) F' = None"
    by (rule no_unit_if_all_empty [OF emp])
  show ?thesis
    using step unit_propagate_no_unit [OF nounit, of a'] nounit emp
    by (auto simp: all_empty_def a'_def)
qed

text \<open>
  Claim C4. For every formula whose literals are nonzero and every assignment vector
  with an entry for each of its variables, \<open>unit_propagate\<close> returns, and either it
  reports no conflict and the resulting formula has neither a unit clause nor an empty
  clause, or it reports a conflict and the resulting formula has an empty clause.
\<close>

theorem unit_propagate_terminates:
  assumes "vars_in_range F a" and "nonzero_literals F"
  shows "\<exists>conflict F' a'.
           unit_propagate F a = Some (Inr (conflict, F', a'))
           \<and> ((\<not> conflict \<and> \<not> list_ex (\<lambda>c. length c = 1) F' \<and> \<not> has_empty_clause F')
               \<or> (conflict \<and> has_empty_clause F'))"
proof -
  from unit_propagate_result [OF assms]
  obtain F' a' where run: "unit_propagate F a = Some (Inr (has_empty_clause F', F', a'))"
    and nounit: "find (\<lambda>c. length c = 1) F' = None"
    by blast
  have "\<not> list_ex (\<lambda>c. length c = 1) F'"
    using nounit by (simp add: find_None_iff list_ex_iff)
  then show ?thesis using run by auto
qed

theorem unit_propagate_terminates_witness:
  "vars_in_range [[1], [- 1, 2], [3, - 4]] [False, False, False, False, False]
   \<and> nonzero_literals [[1], [- 1, 2], [3, - 4]]
   \<and> unit_propagate [[1], [- 1, 2], [3, - 4]] [False, False, False, False, False]
       = Some (Inr (True, [[]], [False, True, False, False, False]))
   \<and> (\<exists>conflict F' a'.
         unit_propagate [[1], [- 1, 2], [3, - 4]] [False, False, False, False, False]
           = Some (Inr (conflict, F', a'))
         \<and> ((\<not> conflict \<and> \<not> list_ex (\<lambda>c. length c = 1) F' \<and> \<not> has_empty_clause F')
             \<or> (conflict \<and> has_empty_clause F')))"
proof -
  have h1: "vars_in_range [[1], [- 1, 2], [3, - 4]] [False, False, False, False, False]"
    by code_simp
  have h2: "nonzero_literals [[1], [- 1, 2], [3, - 4]]"
    by (simp add: nonzero_literals_def)
  have run: "unit_propagate [[1], [- 1, 2], [3, - 4]] [False, False, False, False, False]
       = Some (Inr (True, [[]], [False, True, False, False, False]))"
    by code_simp
  show ?thesis
    using h1 h2 run unit_propagate_terminates [OF h1 h2] by blast
qed

text \<open>
  The hypothesis on the literals cannot be dropped: on the unit clause \<open>[0]\<close> the
  write goes to index 0, \<open>simplify\<close> leaves the literal in place, and every round of
  the loop finds the same unit clause again.
\<close>

lemma simplify_zero_unit: "a \<noteq> [] \<Longrightarrow> simplify [[0]] a = Inr [[0]]"
  by (simp add: Let_def std_abs_def INT_MIN_def in_bounds_def)

lemma unit_propagate_zero_literal_aux:
  assumes "unit_propagate F a = Some y"
  shows "\<not> (F = [[0]] \<and> a \<noteq> [])"
  apply (rule unit_propagate.raw_induct [where P = "\<lambda>F a y. \<not> (F = [[0]] \<and> a \<noteq> [])", OF _ assms])
  subgoal premises prems for up F' a' y'
  proof
    assume h: "F' = [[0]] \<and> a' \<noteq> []"
    then have "up [[0]] (a'[0 := False]) = Some y'"
      using prems(2) simplify_zero_unit [of "a'[0 := False]"]
      by (simp add: Let_def std_abs_def INT_MIN_def in_bounds_def)
    from prems(1) [OF this] show False using h by simp
  qed
  done

lemma unit_propagate_zero_literal_diverges:
  "unit_propagate [[0]] [False] = None"
  using unit_propagate_zero_literal_aux [of "[[0]]" "[False]"] by (cases "unit_propagate [[0]] [False]") auto

section \<open>Pure literal elimination\<close>

lemma find_least:
  fixes x :: int
  assumes "sorted xs" and "x \<in> set xs" and "P x" and "\<forall>y \<in> set xs. P y \<longrightarrow> x \<le> y"
  shows "find P xs = Some x"
  using assms
proof (induction xs)
  case Nil
  then show ?case by simp
next
  case (Cons y ys)
  show ?case
  proof (cases "P y")
    case True
    then have "x \<le> y" using Cons.prems(4) by simp
    moreover have "y \<le> x" using Cons.prems(1,2) by auto
    ultimately show ?thesis using True by simp
  next
    case False
    then have "x \<in> set ys" using Cons.prems(2,3) by auto
    then have "find P ys = Some x"
      using Cons.IH Cons.prems by simp
    then show ?thesis using False by simp
  qed
qed

lemma set_positive_literals:
  "set (positive_literals F) = {l \<in> set (concat F). l > 0}"
  by (auto simp: positive_literals_def)

lemma set_negative_literals:
  "set (negative_literals F) = int_neg ` {l \<in> set (concat F). \<not> l > 0}"
  by (auto simp: negative_literals_def)

lemma sorted_positive_literals: "sorted (positive_literals F)"
  by (simp add: positive_literals_def)

lemma sorted_negative_literals: "sorted (negative_literals F)"
  by (simp add: negative_literals_def)

lemma vars_in_range_no_INT_MIN:
  assumes "vars_in_range F a"
  shows "INT_MIN \<notin> set (concat F)"
proof
  assume "INT_MIN \<in> set (concat F)"
  then have "in_bounds a (std_abs INT_MIN)"
    using assms by (auto simp: vars_in_range_def)
  then show False using in_bounds_std_abs(1) by blast
qed

lemma in_negative_literals_iff:
  assumes "INT_MIN \<notin> set (concat F)"
  shows "v \<in> set (negative_literals F) \<longleftrightarrow> - v \<in> set (concat F) \<and> v \<ge> 0"
proof
  assume "v \<in> set (negative_literals F)"
  then obtain l where l: "l \<in> set (concat F)" "\<not> l > 0" "v = int_neg l"
    unfolding set_negative_literals by blast
  then have "l \<noteq> INT_MIN" using assms by metis
  then have "v = - l" using l(3) by (simp add: int_neg_def)
  then show "- v \<in> set (concat F) \<and> v \<ge> 0" using l(1,2) by simp
next
  assume r: "- v \<in> set (concat F) \<and> v \<ge> 0"
  then have "- v \<noteq> INT_MIN" using assms by metis
  then have "int_neg (- v) = v" by (simp add: int_neg_def)
  moreover have "- v \<in> {l \<in> set (concat F). \<not> l > 0}" using r by simp
  ultimately show "v \<in> set (negative_literals F)"
    unfolding set_negative_literals by (metis imageI)
qed

lemma in_positive_literals_iff:
  "v \<in> set (positive_literals F) \<longleftrightarrow> v \<in> set (concat F) \<and> v > 0"
  by (simp add: set_positive_literals)

lemma pure_positive_iff:
  assumes "INT_MIN \<notin> set (concat F)"
  shows "pure_positive F v \<longleftrightarrow>
           v \<in> set (positive_literals F) \<and> v \<notin> set (negative_literals F)"
  unfolding pure_positive_def in_positive_literals_iff in_negative_literals_iff [OF assms]
  by (auto simp del: set_concat)

lemma pure_negative_iff:
  assumes "nonzero_literals F" and "INT_MIN \<notin> set (concat F)"
  shows "pure_negative F v \<longleftrightarrow>
           v \<in> set (negative_literals F) \<and> v \<notin> set (positive_literals F)"
proof -
  have nz: "0 \<notin> set (concat F)" using assms(1) by (auto simp: nonzero_literals_def)
  have "0 < v" if "- v \<in> set (concat F)" and "0 \<le> v"
  proof (cases "v = 0")
    case True
    with that(1) nz show ?thesis by simp
  next
    case False
    with that(2) show ?thesis by simp
  qed
  then show ?thesis
    unfolding pure_negative_def in_positive_literals_iff in_negative_literals_iff [OF assms(2)]
    by (auto simp del: set_concat)
qed

lemma literal_in_range:
  assumes "vars_in_range F a" and "l \<in> set (concat F)"
  shows "in_bounds a (abs l)"
proof -
  have "in_bounds a (std_abs l)" using assms by (auto simp: vars_in_range_def)
  then show ?thesis using in_bounds_std_abs(2) [of a l] by simp
qed

lemma fix_and_simplify_ok:
  assumes "vars_in_range F a" and "in_bounds a v"
  shows "\<exists>F'. simplify F (a[nat v := b]) = Inr F'
              \<and> fix_and_simplify F a v b = Inr (True, F', a[nat v := b])"
proof -
  have "vars_in_range F (a[nat v := b])"
    using assms(1) by (simp add: vars_in_range_def)
  from simplify_eq [OF this] show ?thesis
    using assms(2) by (simp add: fix_and_simplify_def Let_def)
qed

lemma pure_literal_eliminate_positive:
  assumes "vars_in_range F a"
    and "pure_positive F v" and "\<forall>w. pure_positive F w \<longrightarrow> v \<le> w"
  shows "\<exists>F'. simplify F (a[nat v := True]) = Inr F'
              \<and> pure_literal_eliminate F a = Inr (True, F', a[nat v := True])"
proof -
  note nm = vars_in_range_no_INT_MIN [OF assms(1)]
  have "find (\<lambda>var. var \<notin> set (negative_literals F)) (positive_literals F) = Some v"
    using assms(2,3)
    by (intro find_least sorted_positive_literals) (auto simp: pure_positive_iff [OF nm])
  then have eq: "pure_literal_eliminate F a = fix_and_simplify F a v True"
    by (simp add: pure_literal_eliminate_def)
  have "v \<in> set (concat F)" "v > 0" using assms(2) by (simp_all add: pure_positive_def)
  then have "in_bounds a v" using literal_in_range [OF assms(1), of v] by simp
  from fix_and_simplify_ok [OF assms(1) this, of True] show ?thesis
    using eq by simp
qed

lemma pure_literal_eliminate_negative:
  assumes "vars_in_range F a" and "nonzero_literals F"
    and "\<forall>w. \<not> pure_positive F w"
    and "pure_negative F v" and "\<forall>w. pure_negative F w \<longrightarrow> v \<le> w"
  shows "\<exists>F'. simplify F (a[nat v := False]) = Inr F'
              \<and> pure_literal_eliminate F a = Inr (True, F', a[nat v := False])"
proof -
  note nm = vars_in_range_no_INT_MIN [OF assms(1)]
  have none: "find (\<lambda>var. var \<notin> set (negative_literals F)) (positive_literals F) = None"
    using assms(3) by (auto simp: find_None_iff pure_positive_iff [OF nm])
  have "find (\<lambda>var. var \<notin> set (positive_literals F)) (negative_literals F) = Some v"
    using assms(4,5)
    by (intro find_least sorted_negative_literals)
      (auto simp: pure_negative_iff [OF assms(2) nm])
  then have eq: "pure_literal_eliminate F a = fix_and_simplify F a v False"
    using none by (simp add: pure_literal_eliminate_def)
  have "- v \<in> set (concat F)" "v > 0" using assms(4) by (simp_all add: pure_negative_def)
  then have "in_bounds a v" using literal_in_range [OF assms(1), of "- v"] by simp
  from fix_and_simplify_ok [OF assms(1) this, of False] show ?thesis
    using eq by simp
qed

lemma pure_literal_eliminate_none:
  assumes "vars_in_range F a" and "nonzero_literals F"
    and "\<forall>w. \<not> pure_positive F w \<and> \<not> pure_negative F w"
  shows "pure_literal_eliminate F a = Inr (False, F, a)"
proof -
  note nm = vars_in_range_no_INT_MIN [OF assms(1)]
  have "find (\<lambda>var. var \<notin> set (negative_literals F)) (positive_literals F) = None"
    using assms(3) by (auto simp: find_None_iff pure_positive_iff [OF nm])
  moreover have "find (\<lambda>var. var \<notin> set (positive_literals F)) (negative_literals F) = None"
    using assms(3) by (auto simp: find_None_iff pure_negative_iff [OF assms(2) nm])
  ultimately show ?thesis
    by (simp add: pure_literal_eliminate_def)
qed

text \<open>
  Claim C5, as amended. For every formula with nonzero literals and every assignment
  vector with an entry for each of its variables, one call of \<open>pure_literal_eliminate\<close>
  writes at most one entry of the vector and simplifies the formula under the result:
  if some variable occurs only positively, the lowest such variable is set to true;
  otherwise, if some variable occurs only negatively, the lowest such variable is set to
  false; with no pure variable, the formula and the vector are returned unchanged.
\<close>

theorem pure_literal_eliminate_fixes_one_variable:
  assumes "vars_in_range F a" and "nonzero_literals F"
  shows "(pure_positive F v \<and> (\<forall>w. pure_positive F w \<longrightarrow> v \<le> w) \<longrightarrow>
            (\<exists>F'. simplify F (a[nat v := True]) = Inr F'
                 \<and> pure_literal_eliminate F a = Inr (True, F', a[nat v := True])))
       \<and> ((\<forall>w. \<not> pure_positive F w) \<and> pure_negative F v
            \<and> (\<forall>w. pure_negative F w \<longrightarrow> v \<le> w) \<longrightarrow>
            (\<exists>F'. simplify F (a[nat v := False]) = Inr F'
                 \<and> pure_literal_eliminate F a = Inr (True, F', a[nat v := False])))
       \<and> ((\<forall>w. \<not> pure_positive F w \<and> \<not> pure_negative F w) \<longrightarrow>
            pure_literal_eliminate F a = Inr (False, F, a))"
  using pure_literal_eliminate_positive [OF assms(1), of v]
    pure_literal_eliminate_negative [OF assms, of v]
    pure_literal_eliminate_none [OF assms]
  by blast

theorem pure_literal_eliminate_fixes_one_variable_witness:
  "vars_in_range [[- 1, 2], [3, 2]] [False, True, False, False]
   \<and> nonzero_literals [[- 1, 2], [3, 2]]
   \<and> pure_positive [[- 1, 2], [3, 2]] 2 \<and> pure_negative [[- 1, 2], [3, 2]] 1
   \<and> pure_literal_eliminate [[- 1, 2], [3, 2]] [False, True, False, False]
       = Inr (True, [], [False, True, True, False])
   \<and> vars_in_range [[- 2, 1], [- 1, - 3]] [False, True, True, True]
   \<and> nonzero_literals [[- 2, 1], [- 1, - 3]]
   \<and> pure_negative [[- 2, 1], [- 1, - 3]] 2
   \<and> pure_literal_eliminate [[- 2, 1], [- 1, - 3]] [False, True, True, True]
       = Inr (True, [[]], [False, True, False, True])
   \<and> pure_literal_eliminate [[1, - 2], [- 1, 2]] [False, False, False]
       = Inr (False, [[1, - 2], [- 1, 2]], [False, False, False])"
proof -
  let ?F = "[[- 1, 2], [3, 2]] :: formula" and ?a = "[False, True, False, False]"
  have r1: "vars_in_range ?F ?a" by code_simp
  have n1: "nonzero_literals ?F" by (simp add: nonzero_literals_def)
  have p1: "pure_positive ?F 2" by (simp add: pure_positive_def)
  have q1: "pure_negative ?F 1" by (simp add: pure_negative_def)
  have l1: "\<forall>w. pure_positive ?F w \<longrightarrow> 2 \<le> w" by (auto simp: pure_positive_def)
  have s1: "simplify ?F (?a[nat 2 := True]) = Inr []" by code_simp
  have e1: "pure_literal_eliminate ?F ?a = Inr (True, [], [False, True, True, False])"
    using pure_literal_eliminate_fixes_one_variable [OF r1 n1, of 2] p1 l1 s1 by simp
  let ?G = "[[- 2, 1], [- 1, - 3]] :: formula" and ?b = "[False, True, True, True]"
  have r2: "vars_in_range ?G ?b" by code_simp
  have n2: "nonzero_literals ?G" by (simp add: nonzero_literals_def)
  have p2: "\<forall>w. \<not> pure_positive ?G w" by (auto simp: pure_positive_def)
  have q2: "pure_negative ?G 2" by (simp add: pure_negative_def)
  have l2: "\<forall>w. pure_negative ?G w \<longrightarrow> 2 \<le> w" by (auto simp: pure_negative_def)
  have s2: "simplify ?G (?b[nat 2 := False]) = Inr [[]]" by code_simp
  have e2: "pure_literal_eliminate ?G ?b = Inr (True, [[]], [False, True, False, True])"
    using pure_literal_eliminate_fixes_one_variable [OF r2 n2, of 2] p2 q2 l2 s2 by simp
  let ?H = "[[1, - 2], [- 1, 2]] :: formula" and ?c = "[False, False, False]"
  have r3: "vars_in_range ?H ?c" by code_simp
  have n3: "nonzero_literals ?H" by (simp add: nonzero_literals_def)
  have p3: "\<forall>w. \<not> pure_positive ?H w \<and> \<not> pure_negative ?H w"
    by (auto simp: pure_positive_def pure_negative_def)
  have e3: "pure_literal_eliminate ?H ?c = Inr (False, ?H, ?c)"
    using pure_literal_eliminate_fixes_one_variable [OF r3 n3, of 0] p3 by blast
  show ?thesis
    using r1 n1 p1 q1 e1 r2 n2 q2 e2 e3 by simp
qed

text \<open>
  Claim C5, as stated, fails: in \<open>[[-1, 2]]\<close> the pure variable with the lowest index
  is 1 (it occurs only negatively), and the call sets variable 2 to true and leaves
  variable 1 as it was.
\<close>

theorem pure_literal_eliminate_not_lowest_index:
  "spec_lowest_pure_variable [[- 1, 2]] = Some 1
   \<and> spec_pure_literal_eliminate [[- 1, 2]] [False, True, False]
       = Inr (True, [], [False, False, False])
   \<and> pure_literal_eliminate [[- 1, 2]] [False, True, False]
       = Inr (True, [], [False, True, True])
   \<and> pure_literal_eliminate [[- 1, 2]] [False, True, False]
       \<noteq> spec_pure_literal_eliminate [[- 1, 2]] [False, True, False]"
  by code_simp

section \<open>The branching step of the search\<close>

lemma hd_sorted_Min:
  fixes xs :: "int list"
  assumes "sorted xs" and "xs \<noteq> []"
  shows "hd xs = Min (set xs)"
proof -
  obtain y ys where xs: "xs = y # ys" using assms(2) by (cases xs) auto
  have "Min (set xs) = y"
  proof (rule Min_eqI)
    show "finite (set xs)" by simp
    show "z \<ge> y" if "z \<in> set xs" for z using that assms(1) xs by auto
    show "y \<in> set xs" using xs by simp
  qed
  then show ?thesis using xs by simp
qed

lemma choose_variable_eq:
  "choose_variable F = (if concat F = [] then - 1 else Min (std_abs ` set (concat F)))"
proof (cases "concat F = []")
  case True
  then show ?thesis by (simp add: choose_variable_def del: concat_eq_Nil_conv)
next
  case False
  let ?vs = "sort (remdups (map std_abs (concat F)))"
  have ne: "?vs \<noteq> []"
  proof
    assume "?vs = []"
    then have "set ?vs = {}" by simp
    then have "set (concat F) = {}" by (simp del: set_concat)
    then show False using False by (simp del: set_concat)
  qed
  have "hd ?vs = Min (set ?vs)" by (rule hd_sorted_Min [OF _ ne]) simp
  also have "set ?vs = std_abs ` set (concat F)" by (simp del: set_concat)
  finally show ?thesis
    using False ne by (simp add: choose_variable_def Let_def del: set_concat concat_eq_Nil_conv)
qed

lemma choose_variable_abs:
  assumes "concat F \<noteq> []" and "INT_MIN \<notin> set (concat F)"
  shows "choose_variable F = Min (abs ` set (concat F))"
proof -
  have "std_abs ` set (concat F) = abs ` set (concat F)"
    using assms(2) by (intro image_cong refl std_abs_eq_abs) auto
  then show ?thesis
    using assms(1) by (simp add: choose_variable_eq del: set_concat concat_eq_Nil_conv)
qed

lemma choose_variable_nonneg:
  assumes "concat F \<noteq> []" and "INT_MIN \<notin> set (concat F)"
  shows "0 \<le> choose_variable F"
proof -
  have "Min (abs ` set (concat F)) \<in> abs ` set (concat F)"
    using assms(1) by (intro Min_in) (simp_all del: set_concat)
  then show ?thesis
    using choose_variable_abs [OF assms] by (auto simp del: set_concat)
qed

text \<open>
  A formula that \<open>pure_literal_eliminate\<close> returns holds no literal \<open>INT_MIN\<close>: such a
  literal is the first element of the set of negative literals and pure, so it is either
  used as an index or lies in a clause that \<open>simplify\<close> has read through or dropped.
\<close>

lemma fix_and_simplify_no_INT_MIN:
  assumes "fix_and_simplify F a v val = Inr (b, F', a')"
  shows "INT_MIN \<notin> set (concat F')"
proof -
  have "simplify F (a[nat v := val]) = Inr F'"
    using assms by (auto simp: fix_and_simplify_def Let_def split: if_splits sum.splits)
  then show ?thesis
    using simplify_result_in_bounds vars_in_range_no_INT_MIN by blast
qed

lemma pure_literal_eliminate_no_INT_MIN:
  assumes "pure_literal_eliminate F a = Inr (b, F', a')"
  shows "INT_MIN \<notin> set (concat F')"
proof (cases "find (\<lambda>var. var \<notin> set (negative_literals F)) (positive_literals F)")
  case (Some v)
  then have "fix_and_simplify F a v True = Inr (b, F', a')"
    using assms by (simp add: pure_literal_eliminate_def)
  then show ?thesis by (rule fix_and_simplify_no_INT_MIN)
next
  case None
  show ?thesis
  proof (cases "find (\<lambda>var. var \<notin> set (positive_literals F)) (negative_literals F)")
    case (Some v)
    then have "fix_and_simplify F a v False = Inr (b, F', a')"
      using assms None by (simp add: pure_literal_eliminate_def)
    then show ?thesis by (rule fix_and_simplify_no_INT_MIN)
  next
    case None2: None
    have same: "F' = F" using assms None None2 by (simp add: pure_literal_eliminate_def)
    show ?thesis
    proof
      assume "INT_MIN \<in> set (concat F')"
      then have "INT_MIN \<in> {l \<in> set (concat F). \<not> l > 0}"
        using same by (simp add: INT_MIN_def del: set_concat)
      then have "int_neg INT_MIN \<in> set (negative_literals F)"
        unfolding set_negative_literals by (rule imageI)
      then have "INT_MIN \<in> set (negative_literals F)" by (simp add: int_neg_def)
      moreover have "INT_MIN \<notin> set (positive_literals F)"
        by (simp add: in_positive_literals_iff INT_MIN_def del: set_concat)
      ultimately show False using None2 by (auto simp: find_None_iff)
    qed
  qed
qed

lemma dpll_prefix:
  assumes "F \<noteq> []" and "\<not> has_empty_clause F"
    and "unit_propagate F a = Some (Inr (False, F1, a1))"
    and "pure_literal_eliminate F1 a1 = Inr (b, F2, a2)"
    and "F2 \<noteq> []"
  shows "dpll F a k =
          (let next_var = choose_variable F2 in
           if next_var = - 1 then Some (Inr (True, a2))
           else if \<not> in_bounds a2 next_var then Some (Inl VectorIndexOutOfRange)
           else
             let a3 = a2[nat next_var := True] in
             (case simplify F2 a3 of
                Inl e \<Rightarrow> Some (Inl e)
              | Inr formula_copy \<Rightarrow>
                  Option.bind (dpll formula_copy a3 (next_var + 1)) (\<lambda>r'.
                    case r' of
                      Inl e \<Rightarrow> Some (Inl e)
                    | Inr (found, a4) \<Rightarrow>
                        if found then Some (Inr (True, a4))
                        else if \<not> in_bounds a4 next_var
                          then Some (Inl VectorIndexOutOfRange)
                        else
                          let a5 = a4[nat next_var := False] in
                          (case simplify F2 a5 of
                             Inl e \<Rightarrow> Some (Inl e)
                           | Inr formula_copy' \<Rightarrow>
                               dpll formula_copy' a5 (next_var + 1)))))"
  using assms by (subst dpll.simps) simp

text \<open>
  Claim C6. Let a call of \<open>dpll\<close> reach the branching step: the formula is not empty
  and has no empty clause, unit propagation reports no conflict, and the formula \<open>F2\<close>
  left by the pure-literal pass is not empty. If no literal occurs in \<open>F2\<close>,
  \<open>choose_variable\<close> returns -1 and the call succeeds. Otherwise the chosen variable
  is the smallest magnitude occurring in \<open>F2\<close>; it is set to true first, and when the
  recursive call on the formula simplified under that vector succeeds, the call returns
  that success with that vector, whatever the other polarity would give; only when it
  fails is the variable set to false, in the vector the failed call left, and the result
  is that of the second recursive call.
\<close>

theorem dpll_branches_on_smallest_variable_true_first:
  assumes "F \<noteq> []" and "\<not> has_empty_clause F"
    and "unit_propagate F a = Some (Inr (False, F1, a1))"
    and "pure_literal_eliminate F1 a1 = Inr (b, F2, a2)"
    and "F2 \<noteq> []"
  defines "v \<equiv> choose_variable F2"
  shows "(concat F2 = [] \<longrightarrow> v = - 1 \<and> dpll F a k = Some (Inr (True, a2)))
       \<and> (concat F2 \<noteq> [] \<longrightarrow>
            v = Min (abs ` set (concat F2))
            \<and> (\<forall>Ft. nat v < length a2 \<and> simplify F2 (a2[nat v := True]) = Inr Ft \<longrightarrow>
                 (\<forall>at. dpll Ft (a2[nat v := True]) (v + 1) = Some (Inr (True, at)) \<longrightarrow>
                    dpll F a k = Some (Inr (True, at)))
                 \<and> (\<forall>a4 Ff. dpll Ft (a2[nat v := True]) (v + 1) = Some (Inr (False, a4))
                       \<and> nat v < length a4
                       \<and> simplify F2 (a4[nat v := False]) = Inr Ff \<longrightarrow>
                       dpll F a k = dpll Ff (a4[nat v := False]) (v + 1))))"
proof (intro conjI impI allI)
  assume "concat F2 = []"
  then show "v = - 1" by (simp add: v_def choose_variable_eq del: concat_eq_Nil_conv)
  then show "dpll F a k = Some (Inr (True, a2))"
    using dpll_prefix [OF assms(1-5), of k] by (simp add: v_def)
next
  assume ne: "concat F2 \<noteq> []"
  note nm = pure_literal_eliminate_no_INT_MIN [OF assms(4)]
  show "v = Min (abs ` set (concat F2))"
    unfolding v_def by (rule choose_variable_abs [OF ne nm])
  have v0: "0 \<le> v" using choose_variable_nonneg [OF ne nm] by (simp add: v_def)
  then have v: "v \<noteq> - 1" by simp
  fix Ft
  assume t: "nat v < length a2 \<and> simplify F2 (a2[nat v := True]) = Inr Ft"
  then have b2: "in_bounds a2 v" using v0 by (simp add: in_bounds_def)
  {
    fix at
    assume "dpll Ft (a2[nat v := True]) (v + 1) = Some (Inr (True, at))"
    then show "dpll F a k = Some (Inr (True, at))"
      using dpll_prefix [OF assms(1-5), of k] v t b2 by (simp add: v_def [symmetric])
  }
  {
    fix a4 Ff
    assume f: "dpll Ft (a2[nat v := True]) (v + 1) = Some (Inr (False, a4))
              \<and> nat v < length a4 \<and> simplify F2 (a4[nat v := False]) = Inr Ff"
    then have "in_bounds a4 v" using v0 by (simp add: in_bounds_def)
    then show "dpll F a k = dpll Ff (a4[nat v := False]) (v + 1)"
      using dpll_prefix [OF assms(1-5), of k] v t b2 f by (simp add: v_def [symmetric])
  }
qed

theorem dpll_branches_on_smallest_variable_true_first_witness:
  "dpll [[1, 2], [- 1, - 2]] [False, False, False] 1 = Some (Inr (True, [False, True, False]))
   \<and> choose_variable [[1, 2], [- 1, - 2]] = 1
   \<and> dpll [[1, 2], [2, 3], [- 2, - 3]] [False, False, False, False] 1
       = Some (Inr (True, [False, True, False, False]))
   \<and> choose_variable [[]] = - 1
   \<and> dpll [[- 1, 2], [1, - 2], [1, 2]] [False, False, False] 1
       = dpll [[]] [False, False, False] 2"
proof -
  let ?F = "[[1, 2], [- 1, - 2]] :: formula" and ?a = "[False, False, False]"
  let ?v = "choose_variable ?F"
  have f1: "?F \<noteq> []" by simp
  have f2: "\<not> has_empty_clause ?F" by code_simp
  have f3: "unit_propagate ?F ?a = Some (Inr (False, ?F, ?a))" by code_simp
  have f4: "pure_literal_eliminate ?F ?a = Inr (False, ?F, ?a)" by code_simp
  have f5: "concat ?F \<noteq> []" by simp
  have f6: "?v = 1" by code_simp
  have f7: "nat ?v < length ?a \<and> simplify ?F (?a[nat ?v := True]) = Inr []" by code_simp
  have f8: "dpll [] (?a[nat ?v := True]) (?v + 1) = Some (Inr (True, [False, True, False]))"
    by code_simp
  have A: "dpll ?F ?a 1 = Some (Inr (True, [False, True, False]))"
    using dpll_branches_on_smallest_variable_true_first [OF f1 f2 f3 f4 f1, of 1]
      f5 f7 f8 by blast
  let ?G = "[[1, 2], [2, 3], [- 2, - 3]] :: formula" and ?b = "[False, False, False, False]"
  have g1: "?G \<noteq> []" by simp
  have g2: "\<not> has_empty_clause ?G" by code_simp
  have g3: "unit_propagate ?G ?b = Some (Inr (False, ?G, ?b))" by code_simp
  have g4: "pure_literal_eliminate ?G ?b = Inr (True, [[]], [False, True, False, False])"
    by code_simp
  have g5: "[[]] \<noteq> ([] :: formula)" by simp
  have g6: "concat [[]] = ([] :: int list)" by simp
  have B: "choose_variable [[]] = - 1
           \<and> dpll ?G ?b 1 = Some (Inr (True, [False, True, False, False]))"
    using dpll_branches_on_smallest_variable_true_first [OF g1 g2 g3 g4 g5, of 1] g6
    by blast
  let ?H = "[[- 1, 2], [1, - 2], [1, 2]] :: formula"
  let ?w = "choose_variable ?H"
  have h1: "?H \<noteq> []" by simp
  have h2: "\<not> has_empty_clause ?H" by code_simp
  have h3: "unit_propagate ?H ?a = Some (Inr (False, ?H, ?a))" by code_simp
  have h4: "pure_literal_eliminate ?H ?a = Inr (False, ?H, ?a)" by code_simp
  have h5: "concat ?H \<noteq> []" by simp
  have h7: "nat ?w < length ?a \<and> simplify ?H (?a[nat ?w := True]) = Inr [[]]" by code_simp
  have h8: "dpll [[]] (?a[nat ?w := True]) (?w + 1) = Some (Inr (False, [False, True, False]))
            \<and> nat ?w < length [False, True, False]
            \<and> simplify ?H ([False, True, False][nat ?w := False]) = Inr [[]]"
    by code_simp
  have h9: "[False, True, False][nat ?w := False] = [False, False, False]" by code_simp
  have h10: "?w + 1 = 2" by code_simp
  have "dpll ?H ?a 1 = dpll [[]] ([False, True, False][nat ?w := False]) (?w + 1)"
    using dpll_branches_on_smallest_variable_true_first [OF h1 h2 h3 h4 h1, of 1]
      h5 h7 h8 by blast
  then have C: "dpll ?H ?a 1 = dpll [[]] [False, False, False] 2"
    by (simp only: h9 h10)
  show ?thesis using A B C f6 by blast
qed

section \<open>The search returns on every formula with nonzero literals in range\<close>

text \<open>
  After the first call of \<open>simplify\<close> every clause left is empty, so a recursive call
  of \<open>dpll\<close> returns at one of its first two tests, and the search ends after at most
  two recursive calls.
\<close>

lemma all_empty_wf: "all_empty F \<Longrightarrow> vars_in_range F a \<and> nonzero_literals F"
  by (auto simp: all_empty_def vars_in_range_def nonzero_literals_def)

lemma vars_in_range_length:
  "vars_in_range F a \<Longrightarrow> length a' = length a \<Longrightarrow> vars_in_range F a'"
  by (simp add: vars_in_range_def in_bounds_def)

lemma dpll_all_empty:
  assumes "all_empty F"
  shows "dpll F a k = Some (Inr (F = [], a))"
proof (cases "F = []")
  case True
  then show ?thesis by (subst dpll.simps) simp
next
  case False
  then have "has_empty_clause F"
    using assms by (cases F) (auto simp: all_empty_def has_empty_clause_def)
  then show ?thesis using False by (subst dpll.simps) simp
qed

lemma pure_literal_eliminate_result:
  assumes "vars_in_range F a" and "nonzero_literals F"
  shows "\<exists>b F' a'. pure_literal_eliminate F a = Inr (b, F', a')
           \<and> length a' = length a \<and> (F' = F \<or> all_empty F')"
proof -
  have fixed: "\<exists>F' a'. fix_and_simplify F a v b = Inr (True, F', a')
               \<and> length a' = length a \<and> all_empty F'"
    if "in_bounds a v" for v b
  proof -
    have "vars_in_range F (a[nat v := b])"
      using assms(1) by (simp add: vars_in_range_def)
    from simplify_all_empty [OF this assms(2)] show ?thesis
      using that by (auto simp: fix_and_simplify_def Let_def all_empty_def)
  qed
  show ?thesis
  proof (cases "find (\<lambda>var. var \<notin> set (negative_literals F)) (positive_literals F)")
    case (Some v)
    then have "v \<in> set (positive_literals F)" by (auto simp: find_Some_iff)
    then have "in_bounds a v"
      using literal_in_range [OF assms(1), of v] by (simp add: in_positive_literals_iff)
    from fixed [OF this, of True] show ?thesis
      using Some by (auto simp: pure_literal_eliminate_def)
  next
    case None
    show ?thesis
    proof (cases "find (\<lambda>var. var \<notin> set (positive_literals F)) (negative_literals F)")
      case (Some v)
      then have "v \<in> set (negative_literals F)" by (auto simp: find_Some_iff)
      then have "in_bounds a v"
        using literal_in_range [OF assms(1), of "- v"]
        by (simp add: in_negative_literals_iff [OF vars_in_range_no_INT_MIN [OF assms(1)]])
      from fixed [OF this, of False] show ?thesis
        using None Some by (auto simp: pure_literal_eliminate_def)
    next
      case None2: None
      show ?thesis using None None2 by (auto simp: pure_literal_eliminate_def)
    qed
  qed
qed

lemma choose_variable_in_range:
  assumes "vars_in_range F a" and "choose_variable F \<noteq> - 1"
  shows "in_bounds a (choose_variable F)"
proof -
  have ne: "concat F \<noteq> []"
    using assms(2) by (auto simp: choose_variable_eq simp del: concat_eq_Nil_conv)
  then have "Min (std_abs ` set (concat F)) \<in> std_abs ` set (concat F)"
    by (intro Min_in) (simp_all del: set_concat)
  then obtain l where l: "l \<in> set (concat F)" "Min (std_abs ` set (concat F)) = std_abs l"
    by (auto simp del: set_concat)
  have "choose_variable F = std_abs l"
    using ne l(2) by (simp add: choose_variable_eq del: set_concat concat_eq_Nil_conv)
  then show ?thesis using assms(1) l(1) by (auto simp: vars_in_range_def)
qed

lemma dpll_returns:
  assumes "vars_in_range F a" and "nonzero_literals F"
  shows "\<exists>r a'. dpll F a k = Some (Inr (r, a')) \<and> length a' = length a"
proof (cases "F = [] \<or> has_empty_clause F")
  case True
  then show ?thesis by (subst dpll.simps) auto
next
  case False
  then have F: "F \<noteq> []" "\<not> has_empty_clause F" by simp_all
  from unit_propagate_result [OF assms]
  obtain F1 a1 where up: "unit_propagate F a = Some (Inr (has_empty_clause F1, F1, a1))"
    and l1: "length a1 = length a" and F1: "F1 = F \<or> all_empty F1"
    by blast
  have wf1: "vars_in_range F1 a1 \<and> nonzero_literals F1"
    using F1 assms l1 all_empty_wf [of F1 a1] vars_in_range_length [of F a a1] by auto
  show ?thesis
  proof (cases "has_empty_clause F1")
    case True
    then show ?thesis using F up l1 by (subst dpll.simps) auto
  next
    case noc: False
    from pure_literal_eliminate_result [of F1 a1] wf1
    obtain b F2 a2 where pl: "pure_literal_eliminate F1 a1 = Inr (b, F2, a2)"
      and l2: "length a2 = length a1" and F2: "F2 = F1 \<or> all_empty F2"
      by blast
    have wf2: "vars_in_range F2 a2" "nonzero_literals F2"
      using F2 wf1 l2 all_empty_wf [of F2 a2] vars_in_range_length [of F1 a1 a2] by auto
    have up': "unit_propagate F a = Some (Inr (False, F1, a1))" using up noc by simp
    show ?thesis
    proof (cases "F2 = []")
      case True
      then show ?thesis using F up' pl l1 l2 by (subst dpll.simps) auto
    next
      case ne2: False
      note pre = dpll_prefix [OF F up' pl ne2, of k]
      show ?thesis
      proof (cases "choose_variable F2 = - 1")
        case True
        then show ?thesis using pre l1 l2 by auto
      next
        case cv: False
        define v where "v = choose_variable F2"
        have inb: "in_bounds a2 v"
          using choose_variable_in_range [OF wf2(1) cv] by (simp add: v_def)
        have "vars_in_range F2 (a2[nat v := True])"
          using wf2(1) by (simp add: vars_in_range_def)
        from simplify_all_empty [OF this wf2(2)]
        obtain Ft where Ft: "simplify F2 (a2[nat v := True]) = Inr Ft" and et: "all_empty Ft"
          by (auto simp: all_empty_def)
        have "vars_in_range F2 (a2[nat v := True, nat v := False])"
          using wf2(1) by (simp add: vars_in_range_def)
        from simplify_all_empty [OF this wf2(2)]
        obtain Ff where Ff: "simplify F2 (a2[nat v := True, nat v := False]) = Inr Ff"
          and ef: "all_empty Ff"
          by (auto simp: all_empty_def)
        show ?thesis
          using pre cv inb Ft Ff dpll_all_empty [OF et] dpll_all_empty [OF ef] l1 l2
          by (auto simp: v_def [symmetric] Let_def simp del: list_update_overwrite)
      qed
    qed
  qed
qed

lemma fold_add_clause:
  "fold add_clause Fs S =
     S\<lparr> m_formula := m_formula S @ Fs,
        m_num_variables := fold update_num_variables Fs (m_num_variables S),
        m_has_satisfying_assignment := (if Fs = [] then m_has_satisfying_assignment S else False),
        m_assignment := (if Fs = [] then m_assignment S else []) \<rparr>"
  by (induction Fs arbitrary: S) (auto simp: add_clause_def)

lemma fold_update_num_variables_bound:
  "n \<le> fold update_num_variables Fs n
   \<and> (\<forall>c \<in> set Fs. \<forall>l \<in> set c. std_abs l \<le> fold update_num_variables Fs n)"
proof (induction Fs arbitrary: n)
  case Nil
  show ?case by simp
next
  case (Cons c Fs)
  have c: "n \<le> update_num_variables c n
           \<and> (\<forall>l \<in> set c. std_abs l \<le> update_num_variables c n)"
    by (simp add: update_num_variables_eq)
  show ?case
    using Cons [of "update_num_variables c n"] c by fastforce
qed

lemma fold_update_num_variables_below:
  assumes "n < M" and "\<forall>c \<in> set Fs. \<forall>l \<in> set c. std_abs l < M"
  shows "fold update_num_variables Fs n < M"
  using assms
proof (induction Fs arbitrary: n)
  case Nil
  then show ?case by simp
next
  case (Cons c Fs)
  have "update_num_variables c n < M"
    using Cons.prems by (simp add: update_num_variables_eq)
  then show ?case using Cons by simp
qed

lemma is_satisfiable_returns:
  assumes "nonzero_literals Fs"
    and "\<forall>c \<in> set Fs. \<forall>l \<in> set c. abs l < INT_MAX"
  shows "\<exists>r S'. is_satisfiable (fold add_clause Fs SATSolver) = Some (Inr (r, S'))"
proof (cases "Fs = []")
  case True
  then show ?thesis by (auto simp: is_satisfiable_def SATSolver_def)
next
  case False
  let ?S = "fold add_clause Fs SATSolver"
  let ?n = "fold update_num_variables Fs 0"
  have form: "m_formula ?S = Fs" and nv: "m_num_variables ?S = ?n"
    by (simp_all add: fold_add_clause SATSolver_def)
  have eq: "std_abs l = abs l" if "c \<in> set Fs" and "l \<in> set c" for c l
  proof -
    have "abs l < INT_MAX" using assms(2) that by blast
    then have "l \<noteq> INT_MIN" by (auto simp: INT_MIN_def INT_MAX_def)
    then show ?thesis by (rule std_abs_eq_abs)
  qed
  have "\<forall>c \<in> set Fs. \<forall>l \<in> set c. std_abs l < INT_MAX"
    using assms(2) eq by simp
  then have below: "?n < INT_MAX"
    by (intro fold_update_num_variables_below) (simp_all add: INT_MAX_def)
  have lower: "0 \<le> ?n" using fold_update_num_variables_bound [of 0 Fs] by simp
  have succ: "int_succ ?n = ?n + 1" using below by (simp add: int_succ_def)
  have "vars_in_range Fs (replicate (nat (?n + 1)) False)"
    unfolding vars_in_range_def in_bounds_def
  proof (intro ballI conjI)
    fix c l
    assume cl: "c \<in> set Fs" "l \<in> set c"
    show "0 \<le> std_abs l" using eq [OF cl] by simp
    have "std_abs l \<le> ?n" using fold_update_num_variables_bound [of 0 Fs] cl by blast
    then show "nat (std_abs l) < length (replicate (nat (?n + 1)) False)"
      using lower by simp
  qed
  from dpll_returns [OF this assms(1), of 1] show ?thesis
    using False form nv succ lower by (auto simp: is_satisfiable_def Let_def)
qed

section \<open>Instance utilities: the equivalence check and the generator\<close>

text \<open>
  Claim C7. Whenever the two runs of \<open>is_satisfiable\<close> return verdicts,
  \<open>are_equivalent\<close> returns whether the verdicts are equal: false when exactly one
  formula is found satisfiable, true when both or neither are. On \<open>[[1], [-1]]\<close> and
  \<open>[[2], [-2]]\<close> both verdicts are false and the result is true.
\<close>

theorem are_equivalent_compares_verdicts:
  "(is_satisfiable (fold add_clause f1 SATSolver) = Some (Inr (sat1, S1))
      \<and> is_satisfiable (fold add_clause f2 SATSolver) = Some (Inr (sat2, S2))
      \<longrightarrow> are_equivalent f1 f2 = Some (Inr (sat1 = sat2)))
   \<and> map_option (map_sum id fst) (is_satisfiable (fold add_clause [[1], [- 1]] SATSolver))
       = Some (Inr False)
   \<and> map_option (map_sum id fst) (is_satisfiable (fold add_clause [[2], [- 2]] SATSolver))
       = Some (Inr False)
   \<and> are_equivalent [[1], [- 1]] [[2], [- 2]] = Some (Inr True)"
proof (intro conjI impI)
  assume "is_satisfiable (fold add_clause f1 SATSolver) = Some (Inr (sat1, S1))
      \<and> is_satisfiable (fold add_clause f2 SATSolver) = Some (Inr (sat2, S2))"
  then show "are_equivalent f1 f2 = Some (Inr (sat1 = sat2))"
    by (simp add: are_equivalent_def)
next
  show "map_option (map_sum id fst) (is_satisfiable (fold add_clause [[1], [- 1]] SATSolver))
       = Some (Inr False)"
    by code_simp
  show "map_option (map_sum id fst) (is_satisfiable (fold add_clause [[2], [- 2]] SATSolver))
       = Some (Inr False)"
    by code_simp
  show "are_equivalent [[1], [- 1]] [[2], [- 2]] = Some (Inr True)"
    by code_simp
qed

theorem are_equivalent_compares_verdicts_witness:
  "are_equivalent [[1], [- 1]] [[1, 2]] = Some (Inr False)
   \<and> are_equivalent [[1, 2]] [[- 1], [- 2]] = Some (Inr True)"
proof -
  have u: "is_satisfiable (fold add_clause [[1], [- 1]] SATSolver)
             = Some (Inr (False, \<lparr> m_formula = [[1], [- 1]], m_num_variables = 1,
                   m_assignment = [False, True], m_has_satisfying_assignment = False \<rparr>))"
    by code_simp
  have s: "is_satisfiable (fold add_clause [[1, 2]] SATSolver)
             = Some (Inr (True, \<lparr> m_formula = [[1, 2]], m_num_variables = 2,
                   m_assignment = [False, True, False], m_has_satisfying_assignment = True \<rparr>))"
    by code_simp
  have t: "is_satisfiable (fold add_clause [[- 1], [- 2]] SATSolver)
             = Some (Inr (True, \<lparr> m_formula = [[- 1], [- 2]], m_num_variables = 2,
                   m_assignment = [False, False, False], m_has_satisfying_assignment = True \<rparr>))"
    by code_simp
  show ?thesis
    using are_equivalent_compares_verdicts [of "[[1], [- 1]]" False _ "[[1, 2]]" True]
      are_equivalent_compares_verdicts [of "[[1, 2]]" True _ "[[- 1], [- 2]]" True]
      u s t by simp
qed






end
